theory Spec2Isabelle
  imports Complex_Main "HOL-Library.Word"
begin

section \<open>The blob follower node: data\<close>

text \<open>
  The node \<^verbatim>\<open>alpha_pkg_node.cpp\<close> keeps its whole state in global variables, which three
  subscriber callbacks write and the control loop of \<^verbatim>\<open>main\<close> reads. The callbacks run
  inside \<^verbatim>\<open>ros::spinOnce()\<close>, on the thread of the control loop, so every callback and
  every pass of the loop is one atomic step on the globals.

  The integers keep their width: \<^verbatim>\<open>uint16_t\<close> is \<^typ>\<open>16 word\<close>, the \<^verbatim>\<open>uint32\<close> fields
  of the messages are \<^typ>\<open>32 word\<close>.
\<close>

subsection \<open>Floating point arithmetic\<close>

text \<open>
  A \<^verbatim>\<open>float\<close> or \<^verbatim>\<open>double\<close> variable of the node holds the real number that is its
  value. Every floating point operation of the code is the exact operation followed by
  the rounding of IEEE 754, to the nearest value of the format, ties to the even
  mantissa: \<open>round32\<close> for a \<^verbatim>\<open>float\<close> result (24 bits of mantissa, exponents from -126
  to 127, with the subnormal numbers below), \<open>round64\<close> for a \<^verbatim>\<open>double\<close> result (53 bits,
  exponents from -1022 to 1023). A decimal constant of the source is a \<^verbatim>\<open>double\<close>, the
  rounding of the decimal; converting it to \<^verbatim>\<open>float\<close> rounds again, and converting a
  \<^verbatim>\<open>float\<close> to \<^verbatim>\<open>double\<close> changes nothing. The threshold of the depth scan alone is
  kept as the decimal 0.7, for the reason given with it.

  A result of magnitude \<open>2 ^ 128\<close> or more (\<open>2 ^ 1024\<close> for a \<^verbatim>\<open>double\<close>) would be an
  infinity in the code; the node's own arithmetic stays far below.
\<close>

definition round_half_even :: "real \<Rightarrow> int" where
  "round_half_even q =
     (let f = \<lfloor>q\<rfloor>; d = q - of_int f
      in if d < 1 / 2 then f else if 1 / 2 < d then f + 1 else if even f then f else f + 1)"

text \<open>
  The exponent of the binade of \<open>x \<ge> 0\<close>: the largest \<open>e\<close>, from \<open>emax\<close> down to
  \<open>emax - n\<close>, with \<open>2 powi e \<le> x\<close>, and \<open>emax - n\<close> when there is none.
\<close>

fun binade_search :: "nat \<Rightarrow> int \<Rightarrow> real \<Rightarrow> int" where
  "binade_search 0 e x = e"
| "binade_search (Suc n) e x = (if 2 powi e \<le> x then e else binade_search n (e - 1) x)"

definition round_to :: "nat \<Rightarrow> int \<Rightarrow> int \<Rightarrow> real \<Rightarrow> real" where
  "round_to p emin emax x =
     (let e = binade_search (nat (emax - emin)) emax \<bar>x\<bar>;
          u = 2 powi (e - int p + 1)
      in of_int (round_half_even (x / u)) * u)"

definition round32 :: "real \<Rightarrow> real" where
  "round32 = round_to 24 (- 126) 127"

definition round64 :: "real \<Rightarrow> real" where
  "round64 = round_to 53 (- 1022) 1023"

subsection \<open>The globals\<close>

record globals =
  state :: "16 word"
  goal_found_flag :: bool
  obstacle_found_flag :: bool
  bumper_flag :: bool
  goal_blob_area :: "16 word"
  goal_x :: real

definition image_height :: real where "image_height = 480"
definition image_width :: real where "image_width = 640"
definition linear_speed :: real where "linear_speed = round32 (round64 0.15)"
definition angular_speed :: real where "angular_speed = round32 (round64 0.7)"
definition angular_speed_thresh :: real where "angular_speed_thresh = round32 (round64 0.3)"

text \<open>The values the globals are initialised with.\<close>

definition init_globals :: globals where
  "init_globals = \<lparr>state = 0, goal_found_flag = False, obstacle_found_flag = False,
     bumper_flag = False, goal_blob_area = 0, goal_x = 0\<rparr>"

text \<open>
  Reading a \<^verbatim>\<open>std::vector\<close> past its end is undefined behaviour; the model makes it an
  error value, so that a callback either returns the new globals or reports the read.
\<close>

datatype error = OutOfBounds

definition read_at :: "'a list \<Rightarrow> nat \<Rightarrow> 'a option" where
  "read_at xs i = (if i < length xs then Some (xs ! i) else None)"

subsection \<open>Velocity commands\<close>

text \<open>
  A \<^verbatim>\<open>geometry_msgs::Twist\<close>. The publisher is modelled by the list of the messages
  published so far, oldest first.
\<close>

record Twist =
  linear_x :: real
  linear_y :: real
  linear_z :: real
  angular_x :: real
  angular_y :: real
  angular_z :: real

type_synonym publisher = "Twist list"

definition publish :: "publisher \<Rightarrow> Twist \<Rightarrow> publisher" where
  "publish pub T = pub @ [T]"

definition rotate :: "publisher \<Rightarrow> publisher" where
  "rotate pub = publish pub
     \<lparr>linear_x = 0, linear_y = 0, linear_z = 0,
      angular_x = 0, angular_y = 0, angular_z = angular_speed\<rparr>"

text \<open>
  In \<^verbatim>\<open>-goal_x*angular_speed*0.7\<close> the first product is a \<^verbatim>\<open>float\<close>, the second a
  \<^verbatim>\<open>double\<close>, and the variable it initialises a \<^verbatim>\<open>float\<close>; the clamp multiplies and
  divides in \<^verbatim>\<open>float\<close>; \<^verbatim>\<open>linear_speed*0.7\<close> is a \<^verbatim>\<open>double\<close>.
\<close>

definition seek :: "globals \<Rightarrow> publisher \<Rightarrow> publisher" where
  "seek g pub =
     (let angular_control = round32 (round64 (round32 (- goal_x g * angular_speed) * round64 0.7));
          angular_control =
            (if \<bar>angular_control\<bar> > angular_speed_thresh
             then round32 (round32 (angular_control * angular_speed_thresh) / \<bar>angular_control\<bar>)
             else angular_control)
      in publish pub
           \<lparr>linear_x = round64 (linear_speed * round64 0.7), linear_y = 0, linear_z = 0,
            angular_x = 0, angular_y = 0, angular_z = angular_control\<rparr>)"

definition advance :: "publisher \<Rightarrow> publisher" where
  "advance pub = publish pub
     \<lparr>linear_x = linear_speed, linear_y = 0, linear_z = 0,
      angular_x = 0, angular_y = 0, angular_z = 0\<rparr>"

definition retreat :: "publisher \<Rightarrow> publisher" where
  "retreat pub = publish pub
     \<lparr>linear_x = - linear_speed, linear_y = 0, linear_z = 0,
      angular_x = 0, angular_y = 0, angular_z = 0\<rparr>"

text \<open>The loop \<^verbatim>\<open>for (int i = 0; i < n; i++) body(velocityPublisher);\<close>\<close>

primrec repeat :: "nat \<Rightarrow> (publisher \<Rightarrow> publisher) \<Rightarrow> publisher \<Rightarrow> publisher" where
  "repeat 0 body pub = pub"
| "repeat (Suc n) body pub = repeat n body (body pub)"

section \<open>The control loop\<close>

text \<open>
  One pass of the \<^verbatim>\<open>switch (state)\<close> of \<^verbatim>\<open>main\<close>: the new globals and the publisher
  after the pass. A value of \<^verbatim>\<open>state\<close> other than 0 to 3 matches no case.

  The test of state 2 compares the \<^verbatim>\<open>uint16_t\<close> area, converted to \<^verbatim>\<open>double\<close>, with
  \<^verbatim>\<open>image_width*image_height*0.1\<close>, a \<^verbatim>\<open>float\<close> product times a \<^verbatim>\<open>double\<close>.
\<close>

definition tick :: "globals \<Rightarrow> publisher \<Rightarrow> globals \<times> publisher" where
  "tick g pub =
     (if state g = 0 then
        (if obstacle_found_flag g then (g\<lparr>state := 2\<rparr>, pub)
         else if goal_found_flag g then (g\<lparr>state := 1\<rparr>, pub)
         else (g, rotate pub))
      else if state g = 1 then
        (if obstacle_found_flag g then (g\<lparr>state := 2\<rparr>, pub)
         else if \<not> goal_found_flag g then (g\<lparr>state := 0\<rparr>, pub)
         else (g, seek g pub))
      else if state g = 2 then
        (if real (unat (goal_blob_area g))
              > round64 (round32 (image_width * image_height) * round64 0.1)
         then (g\<lparr>state := 3\<rparr>, pub)
         else if bumper_flag g then
           (g\<lparr>state := 0\<rparr>,
            repeat 40000 advance (repeat 40000 rotate (repeat 40000 retreat pub)))
         else if obstacle_found_flag g then (g, rotate pub)
         else (g\<lparr>state := 0\<rparr>, repeat 100000 advance pub))
      else if state g = 3 then (g\<lparr>state := 3\<rparr>, pub)
      else (g, pub))"

text \<open>The commands one pass emits, and the state it leaves.\<close>

definition emitted :: "globals \<Rightarrow> Twist list" where
  "emitted g = snd (tick g [])"

definition next_state :: "globals \<Rightarrow> 16 word" where
  "next_state g = state (fst (tick g []))"

text \<open>
  A run of the loop. Between two passes \<^verbatim>\<open>ros::spinOnce()\<close> runs the pending callbacks,
  which write the perception globals and never \<^verbatim>\<open>state\<close>; a run is therefore given by
  the perception values each pass reads, as a list of globals whose \<^verbatim>\<open>state\<close> field is
  ignored.
\<close>

fun ticks :: "globals \<Rightarrow> globals list \<Rightarrow> publisher \<Rightarrow> globals \<times> publisher" where
  "ticks g [] pub = (g, pub)"
| "ticks g (p # ps) pub =
     (case tick (p\<lparr>state := state g\<rparr>) pub of (g', pub') \<Rightarrow> ticks g' ps pub')"

section \<open>The blob callback\<close>

text \<open>
  The fields of \<^verbatim>\<open>cmvision::Blob\<close> and \<^verbatim>\<open>cmvision::Blobs\<close> that the callback reads. The
  message types belong to the cmvision package; their integer fields are \<^verbatim>\<open>uint32\<close>.
\<close>

record Blob =
  blob_red :: "32 word"
  blob_green :: "32 word"
  blob_blue :: "32 word"
  blob_area :: "32 word"
  blob_x :: "32 word"
  blob_y :: "32 word"

record Blobs =
  blob_count :: "32 word"
  blobs :: "Blob list"

text \<open>The table \<^verbatim>\<open>int colors[2][3]\<close>; the callback uses row \<^verbatim>\<open>c = 1\<close>.\<close>

definition colors :: "int list list" where
  "colors = [[238, 114, 76], [185, 66, 36]]"

text \<open>The local variables of the callback.\<close>

record blob_locals =
  num_goal_blobs :: int
  goal_sum_x :: real
  goal_sum_y :: real

text \<open>
  The body of the loop for one blob. \<^verbatim>\<open>int area = blobsIn.blobs[i].area\<close> reads the
  \<^verbatim>\<open>uint32\<close> as a signed number; \<^verbatim>\<open>area*blobsIn.blobs[i].x\<close> multiplies an \<^verbatim>\<open>int\<close> with
  a \<^verbatim>\<open>uint32\<close>, which is a product of 32-bit unsigned numbers, converted to \<^verbatim>\<open>float\<close>
  and added in \<^verbatim>\<open>float\<close>; and
  \<^verbatim>\<open>goal_blob_area += area\<close> adds as \<^verbatim>\<open>int\<close> and stores the sum in the \<^verbatim>\<open>uint16_t\<close>,
  which keeps its low 16 bits. The sum is taken in the integers; it leaves the range of
  \<^verbatim>\<open>int\<close> only for an area of \<open>2 ^ 31 - 65535\<close> or more, far above the 307200 pixels of
  a frame.
\<close>

definition blob_body :: "Blob \<Rightarrow> blob_locals \<times> globals \<Rightarrow> blob_locals \<times> globals" where
  "blob_body b = (\<lambda>(l, g).
     (let c = 1 in
      if blob_red b = word_of_int (colors ! c ! 0) \<and>
         blob_green b = word_of_int (colors ! c ! 1) \<and>
         blob_blue b = word_of_int (colors ! c ! 2)
      then
        (let area = sint (blob_area b) in
           (l\<lparr>goal_sum_x := round32 (goal_sum_x l
                + round32 (real (unat (word_of_int area * blob_x b :: 32 word)))),
              goal_sum_y := round32 (goal_sum_y l
                + round32 (real (unat (word_of_int area * blob_y b :: 32 word)))),
              num_goal_blobs := num_goal_blobs l + 1\<rparr>,
            g\<lparr>goal_blob_area := word_of_int (uint (goal_blob_area g) + area)\<rparr>))
      else (l, g)))"

function blob_loop ::
  "Blobs \<Rightarrow> nat \<Rightarrow> blob_locals \<times> globals \<Rightarrow> error + blob_locals \<times> globals" where
  "blob_loop blobsIn i lg =
     (if i < unat (blob_count blobsIn) then
        (case read_at (blobs blobsIn) i of
           None \<Rightarrow> Inl OutOfBounds
         | Some b \<Rightarrow> blob_loop blobsIn (i + 1) (blob_body b lg))
      else Inr lg)"
  by pat_completeness auto
termination
  by (relation "measure (\<lambda>(blobsIn, i, lg). unat (blob_count blobsIn) - i)") auto

definition blobsCallBack :: "Blobs \<Rightarrow> globals \<Rightarrow> error + globals" where
  "blobsCallBack blobsIn g =
     (if blob_count blobsIn > 0 then
        (case blob_loop blobsIn 0
                (\<lparr>num_goal_blobs = 0, goal_sum_x = 0, goal_sum_y = 0\<rparr>,
                 g\<lparr>goal_blob_area := 0\<rparr>) of
           Inl e \<Rightarrow> Inl e
         | Inr (l, g) \<Rightarrow>
             Inr (if unat (goal_blob_area g) > 3000 then
                    (let g = g\<lparr>goal_x :=
                               round32 (goal_sum_x l / real (unat (goal_blob_area g)))\<rparr>;
                         g = g\<lparr>goal_x := round32 (goal_x g - round32 (image_width / 2))\<rparr>
                     in if \<not> goal_found_flag g then g\<lparr>goal_found_flag := True\<rparr> else g)
                  else g\<lparr>goal_found_flag := False\<rparr>))
      else Inr g)"

section \<open>The point cloud callback\<close>

text \<open>
  A coordinate of a point of the cloud is a \<^verbatim>\<open>float\<close> the camera driver wrote: a number,
  an infinity, or not a number. \<^verbatim>\<open>pt.z < min_z\<close> is false when \<^verbatim>\<open>pt.z\<close> is not a number.
  No \<^verbatim>\<open>float\<close> lies between the \<^verbatim>\<open>double\<close> nearest to 0.7 and 0.7 itself, so comparing
  with the real number 0.7 is the comparison the code makes.
\<close>

datatype float32 = Finite real | PlusInfinity | MinusInfinity | NaN

fun float_less :: "float32 \<Rightarrow> real \<Rightarrow> bool" where
  "float_less (Finite r) d = (r < d)"
| "float_less MinusInfinity d = True"
| "float_less PlusInfinity d = False"
| "float_less NaN d = False"

record PointXYZ =
  point_x :: float32
  point_y :: float32
  point_z :: float32

definition min_z :: real where "min_z = 0.7"

text \<open>
  The inner and the outer loop of the scan, with the vector \<^verbatim>\<open>PCL_closest_points\<close> as
  the accumulator.
\<close>

function scan_row :: "PointXYZ list \<Rightarrow> nat \<Rightarrow> nat \<Rightarrow> real list \<Rightarrow> error + real list" where
  "scan_row points k i PCL_closest_points =
     (if i < 640 then
        (case read_at points (640 * (180 + k) + i) of
           None \<Rightarrow> Inl OutOfBounds
         | Some pt \<Rightarrow>
             scan_row points k (i + 1)
               (if float_less (point_z pt) min_z
                then PCL_closest_points @ [real i] else PCL_closest_points))
      else Inr PCL_closest_points)"
  by pat_completeness auto
termination
  by (relation "measure (\<lambda>(points, k, i, acc). 640 - i)") auto

function scan_rows :: "PointXYZ list \<Rightarrow> nat \<Rightarrow> real list \<Rightarrow> error + real list" where
  "scan_rows points k PCL_closest_points =
     (if k < 240 then
        (case scan_row points k 0 PCL_closest_points of
           Inl e \<Rightarrow> Inl e
         | Inr acc \<Rightarrow> scan_rows points (k + 1) acc)
      else Inr PCL_closest_points)"
  by pat_completeness auto
termination
  by (relation "measure (\<lambda>(points, k, acc). 240 - k)") auto

definition PointCloud_Callback :: "PointXYZ list \<Rightarrow> globals \<Rightarrow> error + globals" where
  "PointCloud_Callback cloud g =
     (case scan_rows cloud 0 [] of
        Inl e \<Rightarrow> Inl e
      | Inr PCL_closest_points \<Rightarrow>
          Inr (if length PCL_closest_points > 10 then g\<lparr>obstacle_found_flag := True\<rparr>
               else if \<not> bumper_flag g then g\<lparr>obstacle_found_flag := False\<rparr>
               else g))"

section \<open>The bumper callback\<close>

text \<open>A \<^verbatim>\<open>kobuki_msgs::BumperEvent\<close>: which bumper, and its state (1 is pressed).\<close>

record BumperEvent =
  bumper :: "8 word"
  bumper_state :: "8 word"

definition Bumper_Callback :: "BumperEvent \<Rightarrow> globals \<Rightarrow> globals" where
  "Bumper_Callback bumper_msg g =
     (if bumper_state bumper_msg = 1
      then g\<lparr>bumper_flag := True, obstacle_found_flag := True\<rparr>
      else g\<lparr>bumper_flag := False\<rparr>)"

section \<open>The states the node can reach\<close>

text \<open>
  The globals start as initialised; every step is a callback that returns, on any
  message, or a pass of the control loop.
\<close>

inductive reachable :: "globals \<Rightarrow> bool" where
  start: "reachable init_globals"
| blobs_msg: "reachable g \<Longrightarrow> blobsCallBack blobsIn g = Inr g' \<Longrightarrow> reachable g'"
| cloud_msg: "reachable g \<Longrightarrow> PointCloud_Callback cloud g = Inr g' \<Longrightarrow> reachable g'"
| bumper_msg: "reachable g \<Longrightarrow> reachable (Bumper_Callback bumper_msg g)"
| loop_pass: "reachable g \<Longrightarrow> reachable (fst (tick g pub))"

section \<open>What the specification measures\<close>

text \<open>
  The specification speaks of the blobs of the target colour, of the sum of their areas,
  and of the number of near points in the region of interest. These are written here
  from its words, over the frame as a whole, to be compared with what the loops compute.
\<close>

definition is_target :: "Blob \<Rightarrow> bool" where
  "is_target b = (blob_red b = 185 \<and> blob_green b = 66 \<and> blob_blue b = 36)"

definition matched_blobs :: "Blobs \<Rightarrow> Blob list" where
  "matched_blobs blobsIn =
     filter is_target (take (unat (blob_count blobsIn)) (blobs blobsIn))"

definition matched_area_sum :: "Blobs \<Rightarrow> nat" where
  "matched_area_sum blobsIn = sum_list (map (\<lambda>b. unat (blob_area b)) (matched_blobs blobsIn))"

definition is_near :: "PointXYZ list \<Rightarrow> nat \<Rightarrow> nat \<Rightarrow> bool" where
  "is_near cloud row col = float_less (point_z (cloud ! (640 * row + col))) 0.7"

definition near_count :: "PointXYZ list \<Rightarrow> nat" where
  "near_count cloud =
     length (filter (\<lambda>(row, col). is_near cloud row col)
               (List.product [180..<420] [0..<640]))"

section \<open>What the loops have left to do\<close>

text \<open>
  The part of each sum or count that a loop has still to add when its counter is at a
  given value; the loop invariants are stated with them.
\<close>

definition area_from :: "Blobs \<Rightarrow> nat \<Rightarrow> nat" where
  "area_from m i = sum_list (map (\<lambda>b. unat (blob_area b))
     (filter is_target (drop i (take (unat (blob_count m)) (blobs m)))))"

definition near_cols :: "PointXYZ list \<Rightarrow> nat \<Rightarrow> nat \<Rightarrow> nat list" where
  "near_cols cloud k i = filter (\<lambda>j. is_near cloud (180 + k) j) [i..<640]"

definition near_rows :: "PointXYZ list \<Rightarrow> nat \<Rightarrow> nat list" where
  "near_rows cloud k = concat (map (\<lambda>r. near_cols cloud r 0) [k..<240])"

text \<open>The loops are unfolded one step at a time, by hand.\<close>

declare blob_loop.simps [simp del] scan_row.simps [simp del] scan_rows.simps [simp del]

section \<open>Properties of the rounding\<close>

lemma binade_search_eq:
  "2 powi t \<le> x \<Longrightarrow> x < 2 powi (t + 1) \<Longrightarrow> t \<le> e \<Longrightarrow> e - int n \<le> t \<Longrightarrow>
     binade_search n e x = t"
proof (induction n arbitrary: e)
  case 0
  then show ?case by simp
next
  case (Suc n)
  show ?case
  proof (cases "2 powi e \<le> x")
    case True
    have "\<not> t + 1 \<le> e"
    proof
      assume "t + 1 \<le> e"
      then have "(2::real) powi (t + 1) \<le> 2 powi e"
        by (intro power_int_increasing) simp_all
      with True Suc.prems(2) show False by simp
    qed
    then show ?thesis using True Suc.prems(3) by simp
  next
    case False
    then have "e \<noteq> t" using Suc.prems(1) by auto
    then have "binade_search n (e - 1) x = t"
      using Suc.prems by (intro Suc.IH) simp_all
    then show ?thesis using False by simp
  qed
qed

lemma binade_search_low:
  "x < 2 powi (e - int n) \<Longrightarrow> binade_search n e x = e - int n"
proof (induction n arbitrary: e)
  case 0
  then show ?case by simp
next
  case (Suc n)
  have "(2::real) powi (e - int (Suc n)) \<le> 2 powi e"
    by (rule power_int_increasing) simp_all
  then have "\<not> 2 powi e \<le> x" using Suc.prems by simp
  moreover have "binade_search n (e - 1) x = e - 1 - int n"
    using Suc.prems by (intro Suc.IH) (simp add: algebra_simps)
  ultimately show ?case by simp
qed

lemma binade_search_bounds:
  "2 powi (e - int n) \<le> x \<Longrightarrow> x < 2 powi (e + 1) \<Longrightarrow>
     2 powi (binade_search n e x) \<le> x \<and> x < 2 powi (binade_search n e x + 1)"
proof (induction n arbitrary: e)
  case 0
  then show ?case by simp
next
  case (Suc n)
  show ?case
  proof (cases "2 powi e \<le> x")
    case True
    then show ?thesis using Suc.prems by simp
  next
    case False
    then have "2 powi (binade_search n (e - 1) x) \<le> x \<and>
        x < 2 powi (binade_search n (e - 1) x + 1)"
      using Suc.prems by (intro Suc.IH) (simp_all add: algebra_simps)
    then show ?thesis using False by simp
  qed
qed

lemma round_half_even_error: "\<bar>of_int (round_half_even q) - q\<bar> \<le> 1 / 2"
proof -
  have "of_int \<lfloor>q\<rfloor> \<le> q" "q < of_int \<lfloor>q\<rfloor> + 1" by linarith+
  then show ?thesis
    by (auto simp: round_half_even_def Let_def)
qed

lemma round_to_eq:
  assumes "emin \<le> t" "t \<le> emax" "2 powi t \<le> \<bar>x\<bar>" "\<bar>x\<bar> < 2 powi (t + 1)"
  shows "round_to p emin emax x =
     of_int (round_half_even (x / 2 powi (t - int p + 1))) * 2 powi (t - int p + 1)"
proof -
  have "binade_search (nat (emax - emin)) emax \<bar>x\<bar> = t"
    using assms by (intro binade_search_eq) simp_all
  then show ?thesis by (simp add: round_to_def Let_def)
qed

lemma round_to_unit_error:
  fixes u :: real
  assumes "0 < u"
  shows "\<bar>of_int (round_half_even (x / u)) * u - x\<bar> \<le> u / 2"
proof -
  have "of_int (round_half_even (x / u)) * u - x
      = (of_int (round_half_even (x / u)) - x / u) * u"
    using assms by (simp add: left_diff_distrib)
  then have "\<bar>of_int (round_half_even (x / u)) * u - x\<bar>
      = \<bar>of_int (round_half_even (x / u)) - x / u\<bar> * u"
    using assms by (simp add: abs_mult)
  also have "\<dots> \<le> 1 / 2 * u"
    using assms by (intro mult_right_mono round_half_even_error) simp
  finally show ?thesis by simp
qed

lemma round_to_error_normal:
  assumes "emin \<le> emax" "2 powi emin \<le> \<bar>x\<bar>" "\<bar>x\<bar> < 2 powi (emax + 1)"
  shows "\<bar>round_to p emin emax x - x\<bar> \<le> \<bar>x\<bar> / 2 ^ p"
proof -
  define e where "e = binade_search (nat (emax - emin)) emax \<bar>x\<bar>"
  have e: "2 powi e \<le> \<bar>x\<bar>"
    unfolding e_def using assms binade_search_bounds [of emax "nat (emax - emin)" "\<bar>x\<bar>"]
    by simp
  let ?u = "(2::real) powi (e - int p + 1)"
  have "\<bar>round_to p emin emax x - x\<bar> \<le> ?u / 2"
    unfolding round_to_def Let_def e_def [symmetric] by (rule round_to_unit_error) simp
  also have "?u / 2 = 2 powi e / 2 ^ p"
    by (simp add: power_int_diff power_int_add)
  also have "\<dots> \<le> \<bar>x\<bar> / 2 ^ p"
    using e by (simp add: divide_right_mono)
  finally show ?thesis .
qed

lemma round_to_error_subnormal:
  assumes "emin \<le> emax" "\<bar>x\<bar> < 2 powi emin"
  shows "\<bar>round_to p emin emax x - x\<bar> \<le> 2 powi (emin - int p)"
proof -
  have "binade_search (nat (emax - emin)) emax \<bar>x\<bar> = emax - int (nat (emax - emin))"
    using assms by (intro binade_search_low) simp
  then have e: "binade_search (nat (emax - emin)) emax \<bar>x\<bar> = emin"
    using assms by simp
  let ?u = "(2::real) powi (emin - int p + 1)"
  have "\<bar>round_to p emin emax x - x\<bar> \<le> ?u / 2"
    unfolding round_to_def Let_def e by (rule round_to_unit_error) simp
  also have "?u / 2 = 2 powi (emin - int p)"
    by (simp add: power_int_add)
  finally show ?thesis .
qed

lemma round_to_error:
  assumes "emin \<le> emax" "\<bar>x\<bar> < 2 powi (emax + 1)"
  shows "\<bar>round_to p emin emax x - x\<bar> \<le> \<bar>x\<bar> / 2 ^ p + 2 powi (emin - int p)"
proof (cases "2 powi emin \<le> \<bar>x\<bar>")
  case True
  have "0 \<le> (2::real) powi (emin - int p)" by simp
  with round_to_error_normal [OF assms(1) True assms(2), of p] show ?thesis by linarith
next
  case False
  then have "\<bar>x\<bar> < 2 powi emin" by simp
  moreover have "0 \<le> \<bar>x\<bar> / 2 ^ p" by simp
  ultimately show ?thesis
    using round_to_error_subnormal [OF assms(1), of x p] by linarith
qed

lemma round32_normal:
  "1 / 2 ^ 126 \<le> \<bar>x\<bar> \<Longrightarrow> \<bar>x\<bar> < 2 ^ 128 \<Longrightarrow> \<bar>round32 x - x\<bar> \<le> \<bar>x\<bar> / 2 ^ 24"
  unfolding round32_def
  by (rule round_to_error_normal) (simp_all add: power_int_minus divide_simps)

lemma round32_error:
  "\<bar>x\<bar> < 2 ^ 128 \<Longrightarrow> \<bar>round32 x - x\<bar> \<le> \<bar>x\<bar> / 2 ^ 24 + 1 / 2 ^ 150"
  using round_to_error [of "- 126" 127 x 24]
  by (simp add: round32_def power_int_minus divide_simps)

lemma round64_error:
  "\<bar>x\<bar> < 2 ^ 1024 \<Longrightarrow> \<bar>round64 x - x\<bar> \<le> \<bar>x\<bar> / 2 ^ 53 + 1 / 2 ^ 1075"
  using round_to_error [of "- 1022" 1023 x 53]
  by (simp add: round64_def power_int_minus divide_simps)

lemma round_half_even_eq: "\<bar>q - of_int m\<bar> < 1 / 2 \<Longrightarrow> round_half_even q = m"
proof -
  assume a: "\<bar>q - of_int m\<bar> < 1 / 2"
  show ?thesis
  proof (cases "of_int m \<le> q")
    case True
    then have "\<lfloor>q\<rfloor> = m" using a by (intro floor_unique) auto
    then show ?thesis using a True by (simp add: round_half_even_def Let_def)
  next
    case False
    then have "\<lfloor>q\<rfloor> = m - 1" using a by (intro floor_unique) auto
    then show ?thesis using a False by (simp add: round_half_even_def Let_def)
  qed
qed

lemma round_to_value:
  assumes "emin \<le> t" "t \<le> emax" "2 powi t \<le> \<bar>x\<bar>" "\<bar>x\<bar> < 2 powi (t + 1)"
    and "\<bar>x / 2 powi (t - int p + 1) - of_int m\<bar> < 1 / 2"
  shows "round_to p emin emax x = of_int m * 2 powi (t - int p + 1)"
  by (simp only: round_to_eq [OF assms(1-4)] round_half_even_eq [OF assms(5)])

lemma round64_0_7: "round64 0.7 = 3152519739159347 / 2 ^ 52"
  unfolding round64_def
  by (subst round_to_value [where t = "- 1" and m = 6305039478318694]) (simp_all add: power_int_minus)

lemma round64_0_15: "round64 0.15 = 5404319552844595 / 2 ^ 55"
  unfolding round64_def
  by (subst round_to_value [where t = "- 3" and m = 5404319552844595]) (simp_all add: power_int_minus)

lemma round64_0_3: "round64 0.3 = 5404319552844595 / 2 ^ 54"
  unfolding round64_def
  by (subst round_to_value [where t = "- 2" and m = 5404319552844595]) (simp_all add: power_int_minus)

lemma round64_0_1: "round64 0.1 = 3602879701896397 / 2 ^ 55"
  unfolding round64_def
  by (subst round_to_value [where t = "- 4" and m = 7205759403792794]) (simp_all add: power_int_minus)

lemma round32_0_7: "round32 (3152519739159347 / 2 ^ 52) = 11744051 / 2 ^ 24"
  unfolding round32_def
  by (subst round_to_value [where t = "- 1" and m = 11744051]) (simp_all add: power_int_minus)

lemma round32_0_15: "round32 (5404319552844595 / 2 ^ 55) = 5033165 / 2 ^ 25"
  unfolding round32_def
  by (subst round_to_value [where t = "- 3" and m = 10066330]) (simp_all add: power_int_minus)

lemma round32_0_3: "round32 (5404319552844595 / 2 ^ 54) = 5033165 / 2 ^ 24"
  unfolding round32_def
  by (subst round_to_value [where t = "- 2" and m = 10066330]) (simp_all add: power_int_minus)

lemma round32_307200: "round32 307200 = 307200"
  unfolding round32_def
  by (subst round_to_value [where t = 18 and m = 9830400]) (simp_all add: power_int_minus)

lemma round64_30720: "round64 (307200 * (3602879701896397 / 2 ^ 55)) = 30720"
  unfolding round64_def
  by (subst round_to_value [where t = 14 and m = 8444249301319680]) (simp_all add: power_int_minus)

lemma round64_linear: "round64 (5033165 / 2 ^ 25 * (3152519739159347 / 2 ^ 52)) = 7046431 / 2 ^ 26"
  unfolding round64_def
  by (subst round_to_value [where t = "- 4" and m = 7566047674630144]) (simp_all add: power_int_minus)

section \<open>Properties of the control loop\<close>

lemma length_repeat_publish:
  assumes "\<And>p. length (body p) = Suc (length p)"
  shows "length (repeat n body pub) = length pub + n"
  using assms by (induction n arbitrary: pub) simp_all

lemma length_rotate [simp]: "length (rotate pub) = Suc (length pub)"
  by (simp add: rotate_def publish_def)

lemma length_advance [simp]: "length (advance pub) = Suc (length pub)"
  by (simp add: advance_def publish_def)

lemma length_retreat [simp]: "length (retreat pub) = Suc (length pub)"
  by (simp add: retreat_def publish_def)

lemma length_seek [simp]: "length (seek g pub) = Suc (length pub)"
  by (simp add: seek_def publish_def Let_def)

lemma length_repeat_rotate [simp]: "length (repeat n rotate pub) = length pub + n"
  by (rule length_repeat_publish) simp

lemma length_repeat_advance [simp]: "length (repeat n advance pub) = length pub + n"
  by (rule length_repeat_publish) simp

lemma length_repeat_retreat [simp]: "length (repeat n retreat pub) = length pub + n"
  by (rule length_repeat_publish) simp

lemma area_threshold: "round64 (round32 (image_width * image_height) * round64 0.1) = 30720"
proof -
  have "image_width * image_height = 307200"
    by (simp add: image_width_def image_height_def)
  then show ?thesis
    by (simp only: round32_307200 round64_0_1 round64_30720)
qed

lemma area_test:
  "(real (unat (goal_blob_area g)) > round64 (round32 (image_width * image_height) * round64 0.1))
     = (30720 < unat (goal_blob_area g))"
proof -
  have "(real (unat (goal_blob_area g)) > 30720) = (30720 < unat (goal_blob_area g))"
    by linarith
  then show ?thesis
    by (simp only: area_threshold)
qed

lemma tick_reached: "state g = 3 \<Longrightarrow> tick g pub = (g, pub)"
  by (simp add: tick_def)

lemma tick_avoid:
  "state g = 2 \<Longrightarrow> tick g pub =
     (if 30720 < unat (goal_blob_area g) then (g\<lparr>state := 3\<rparr>, pub)
      else if bumper_flag g then
        (g\<lparr>state := 0\<rparr>,
         repeat 40000 advance (repeat 40000 rotate (repeat 40000 retreat pub)))
      else if obstacle_found_flag g then (g, rotate pub)
      else (g\<lparr>state := 0\<rparr>, repeat 100000 advance pub))"
  unfolding tick_def area_test by simp

section \<open>Properties of the steering command\<close>

lemma angular_speed_value: "angular_speed = 11744051 / 2 ^ 24"
  by (simp only: angular_speed_def round64_0_7 round32_0_7)

lemma angular_speed_thresh_value: "angular_speed_thresh = 5033165 / 2 ^ 24"
  by (simp only: angular_speed_thresh_def round64_0_3 round32_0_3)

lemma linear_speed_value: "linear_speed = 5033165 / 2 ^ 25"
  by (simp only: linear_speed_def round64_0_15 round32_0_15)

lemma seek_linear_x: "round64 (linear_speed * round64 0.7) = 7046431 / 2 ^ 26"
  by (simp only: linear_speed_value round64_0_7 round64_linear)

lemma round32_bound:
  assumes "\<bar>x\<bar> < 2 ^ 128"
  shows "\<bar>round32 x\<bar> \<le> \<bar>x\<bar> + \<bar>x\<bar> / 2 ^ 24 + 1 / 2 ^ 150"
  using round32_error [OF assms] by linarith

lemma round64_bound:
  assumes "\<bar>x\<bar> < 2 ^ 1024"
  shows "\<bar>round64 x\<bar> \<le> \<bar>x\<bar> + \<bar>x\<bar> / 2 ^ 53 + 1 / 2 ^ 1075"
  using round64_error [OF assms] by linarith

lemma angular_chain:
  fixes nG n1 d1 nr1 n2 d2 nr2 d3 d4 d5 :: real
  assumes "n1 = nG * (11744051 / 2 ^ 24)"
    and "d1 \<le> n1 / 2 ^ 24 + 1 / 2 ^ 150"
    and "nr1 \<le> n1 + d1"
    and "n2 = nr1 * (3152519739159347 / 2 ^ 52)"
    and "d2 \<le> n2 / 2 ^ 53 + 1 / 2 ^ 1075"
    and "nr2 \<le> n2 + d2"
    and "d3 \<le> nr2 / 2 ^ 24 + 1 / 2 ^ 150"
    and "d4 = d1 * (3152519739159347 / 2 ^ 52)"
    and "d5 \<le> nG / 10 ^ 8"
    and "0 \<le> nG"
  shows "d3 + d2 + d4 + d5 \<le> nG / 10 ^ 7 + 1 / 2 ^ 149"
    and "nG < 2 ^ 128 \<Longrightarrow> nr2 + d3 < 2 ^ 128"
proof -
  show "d3 + d2 + d4 + d5 \<le> nG / 10 ^ 7 + 1 / 2 ^ 149"
    using assms by simp
  show "nG < 2 ^ 128 \<Longrightarrow> nr2 + d3 < 2 ^ 128"
    using assms by simp
qed

text \<open>The float value of the product before the clamp.\<close>

lemma angular_raw:
  fixes G :: real
  assumes G: "\<bar>G\<bar> < 2 ^ 128"
  defines "a \<equiv> round32 (round64 (round32 (- G * angular_speed) * round64 0.7))"
  shows "\<bar>a - (- G * (0.7 * 0.7))\<bar> \<le> \<bar>G\<bar> / 10 ^ 7 + 1 / 2 ^ 149" and "\<bar>a\<bar> < 2 ^ 128"
proof -
  define c1 :: real where "c1 = 11744051 / 2 ^ 24"
  define c2 :: real where "c2 = 3152519739159347 / 2 ^ 52"
  define x1 where "x1 = - G * c1"
  define r1 where "r1 = round32 x1"
  define x2 where "x2 = r1 * c2"
  define r2 where "r2 = round64 x2"
  have a: "a = round32 r2"
    by (simp only: a_def r2_def x2_def r1_def x1_def c1_def c2_def angular_speed_value round64_0_7)
  have x1: "\<bar>x1\<bar> = \<bar>G\<bar> * (11744051 / 2 ^ 24)"
    by (simp add: x1_def c1_def abs_mult)
  have x1b: "\<bar>x1\<bar> < 2 ^ 128"
    using G x1 by simp
  have e1: "\<bar>r1 - x1\<bar> \<le> \<bar>x1\<bar> / 2 ^ 24 + 1 / 2 ^ 150"
    unfolding r1_def by (rule round32_error [OF x1b])
  have r1: "\<bar>r1\<bar> \<le> \<bar>x1\<bar> + \<bar>x1\<bar> / 2 ^ 24 + 1 / 2 ^ 150"
    using e1 by linarith
  have x2: "\<bar>x2\<bar> = \<bar>r1\<bar> * (3152519739159347 / 2 ^ 52)"
    by (simp add: x2_def c2_def abs_mult)
  have x2b: "\<bar>x2\<bar> < 2 ^ 127"
    using x2 r1 x1 G by simp
  then have x2c: "\<bar>x2\<bar> < 2 ^ 1024" by simp
  have e2: "\<bar>r2 - x2\<bar> \<le> \<bar>x2\<bar> / 2 ^ 53 + 1 / 2 ^ 1075"
    unfolding r2_def by (rule round64_error [OF x2c])
  have r2: "\<bar>r2\<bar> \<le> \<bar>x2\<bar> + \<bar>x2\<bar> / 2 ^ 53 + 1 / 2 ^ 1075"
    using e2 by linarith
  have r2b: "\<bar>r2\<bar> < 2 ^ 128"
    using r2 x2b by simp
  have e3: "\<bar>a - r2\<bar> \<le> \<bar>r2\<bar> / 2 ^ 24 + 1 / 2 ^ 150"
    unfolding a by (rule round32_error [OF r2b])
  have mid: "x2 - (- G * c1 * c2) = (r1 - x1) * c2"
    by (simp add: x2_def x1_def algebra_simps)
  have e4: "\<bar>x2 - (- G * c1 * c2)\<bar> = \<bar>r1 - x1\<bar> * (3152519739159347 / 2 ^ 52)"
    unfolding mid by (simp only: abs_mult) (simp add: c2_def)
  have e5: "\<bar>(- G * c1 * c2) - (- G * (0.7 * 0.7))\<bar> = \<bar>G\<bar> * \<bar>0.7 * 0.7 - c1 * c2\<bar>"
  proof -
    have "(- G * c1 * c2) - (- G * (0.7 * 0.7)) = G * (0.7 * 0.7 - c1 * c2)"
      by (simp add: algebra_simps)
    then show ?thesis by (simp only: abs_mult)
  qed
  have c: "\<bar>0.7 * 0.7 - c1 * c2\<bar> \<le> 1 / 10 ^ 8"
    by (simp add: c1_def c2_def)
  have tri: "\<bar>a - (- G * (0.7 * 0.7))\<bar>
      \<le> \<bar>a - r2\<bar> + \<bar>r2 - x2\<bar> + \<bar>x2 - (- G * c1 * c2)\<bar>
        + \<bar>(- G * c1 * c2) - (- G * (0.7 * 0.7))\<bar>"
    by linarith
  have e5': "\<bar>(- G * c1 * c2) - (- G * (0.7 * 0.7))\<bar> \<le> \<bar>G\<bar> / 10 ^ 8"
    unfolding e5 using mult_left_mono [OF c, of "\<bar>G\<bar>"] by simp
  have r1': "\<bar>r1\<bar> \<le> \<bar>x1\<bar> + \<bar>r1 - x1\<bar>" by linarith
  have r2': "\<bar>r2\<bar> \<le> \<bar>x2\<bar> + \<bar>r2 - x2\<bar>" by linarith
  note facts = x1 e1 r1' x2 e2 r2' e3 e4 e5' abs_ge_zero [of G]
  have "\<bar>a - r2\<bar> + \<bar>r2 - x2\<bar> + \<bar>x2 - (- G * c1 * c2)\<bar>
        + \<bar>(- G * c1 * c2) - (- G * (0.7 * 0.7))\<bar> \<le> \<bar>G\<bar> / 10 ^ 7 + 1 / 2 ^ 149"
    by (rule angular_chain(1) [OF facts])
  with tri show "\<bar>a - (- G * (0.7 * 0.7))\<bar> \<le> \<bar>G\<bar> / 10 ^ 7 + 1 / 2 ^ 149"
    by linarith
  have "\<bar>r2\<bar> + \<bar>a - r2\<bar> < 2 ^ 128"
    by (rule angular_chain(2) [OF facts G])
  then show "\<bar>a\<bar> < 2 ^ 128"
    by linarith
qed

text \<open>The float value of the clamp.\<close>

lemma angular_clamp:
  fixes a :: real
  assumes big: "5033165 / 2 ^ 24 < \<bar>a\<bar>" and fin: "\<bar>a\<bar> < 2 ^ 128"
  defines "z \<equiv> round32 (round32 (a * (5033165 / 2 ^ 24)) / \<bar>a\<bar>)"
  shows "sgn z = sgn a" and "\<bar>\<bar>z\<bar> - 5033165 / 2 ^ 24\<bar> \<le> 5033165 / 2 ^ 24 / 2 ^ 22"
proof -
  define T :: real where "T = 5033165 / 2 ^ 24"
  define x where "x = a * T"
  define p where "p = round32 x"
  define q where "q = p / \<bar>a\<bar>"
  have z: "z = round32 q"
    by (simp only: z_def q_def p_def x_def T_def)
  have T: "3 / 10 < T" "T < 1"
    by (simp_all add: T_def)
  have a0: "0 < \<bar>a\<bar>" "T < \<bar>a\<bar>"
    using big T by (simp_all add: T_def)
  have x: "\<bar>x\<bar> = \<bar>a\<bar> * T"
    using T by (simp add: x_def abs_mult)
  have "T * T \<le> \<bar>a\<bar> * T"
    using a0 T by (intro mult_right_mono) simp_all
  moreover have "1 / 2 ^ 126 \<le> T * T"
    by (simp add: T_def)
  ultimately have xlo: "1 / 2 ^ 126 \<le> \<bar>x\<bar>"
    using x by linarith
  have "\<bar>a\<bar> * T \<le> \<bar>a\<bar> * 1"
    using T by (intro mult_left_mono) simp_all
  then have xhi: "\<bar>x\<bar> < 2 ^ 128"
    using x fin by linarith
  have ep: "\<bar>p - x\<bar> \<le> \<bar>x\<bar> / 2 ^ 24"
    unfolding p_def by (rule round32_normal [OF xlo xhi])
  have y: "x / \<bar>a\<bar> = T * sgn a"
    using a0 by (simp add: x_def sgn_real_def)
  have "q - T * sgn a = (p - x) / \<bar>a\<bar>"
    unfolding y [symmetric] q_def by (simp add: diff_divide_distrib)
  then have "\<bar>q - T * sgn a\<bar> = \<bar>p - x\<bar> / \<bar>a\<bar>"
    by simp
  also have "\<dots> \<le> (\<bar>x\<bar> / 2 ^ 24) / \<bar>a\<bar>"
    using ep a0 by (intro divide_right_mono) simp_all
  also have "\<dots> = T / 2 ^ 24"
    using a0 x by simp
  finally have eq: "\<bar>q - T * sgn a\<bar> \<le> T / 2 ^ 24" .
  have s: "sgn a = 1 \<or> sgn a = - 1"
    using a0 by (auto simp: sgn_real_def)
  have ts: "\<bar>T * sgn a\<bar> = T"
    using s T by (auto simp: abs_mult)
  have "\<bar>\<bar>q\<bar> - \<bar>T * sgn a\<bar>\<bar> \<le> \<bar>q - T * sgn a\<bar>"
    by (rule abs_triangle_ineq3)
  then have qabs: "T - T / 2 ^ 24 \<le> \<bar>q\<bar>" "\<bar>q\<bar> \<le> T + T / 2 ^ 24"
    using eq ts by linarith+
  have qlo: "1 / 2 ^ 126 \<le> \<bar>q\<bar>"
    using qabs(1) T by simp
  have qhi: "\<bar>q\<bar> < 2 ^ 128"
    using qabs(2) T by simp
  have ez: "\<bar>z - q\<bar> \<le> \<bar>q\<bar> / 2 ^ 24"
    unfolding z by (rule round32_normal [OF qlo qhi])
  have "\<bar>z - T * sgn a\<bar> \<le> \<bar>z - q\<bar> + \<bar>q - T * sgn a\<bar>"
    by linarith
  then have ezs: "\<bar>z - T * sgn a\<bar> \<le> T / 2 ^ 22"
    using ez eq qabs(2) T by simp
  have small: "T / 2 ^ 22 < T"
    using T by simp
  show "sgn z = sgn a"
  proof (cases "sgn a = 1")
    case True
    then have "\<bar>z - T\<bar> \<le> T / 2 ^ 22" using ezs by simp
    then have "0 < z" using small by linarith
    then show ?thesis using True by simp
  next
    case False
    then have m: "sgn a = - 1" using s by simp
    then have "\<bar>z + T\<bar> \<le> T / 2 ^ 22" using ezs by simp
    then have "z < 0" using small by linarith
    then show ?thesis using m by simp
  qed
  have "\<bar>\<bar>z\<bar> - \<bar>T * sgn a\<bar>\<bar> \<le> \<bar>z - T * sgn a\<bar>"
    by (rule abs_triangle_ineq3)
  then have "\<bar>\<bar>z\<bar> - T\<bar> \<le> T / 2 ^ 22"
    using ezs ts by linarith
  then show "\<bar>\<bar>z\<bar> - 5033165 / 2 ^ 24\<bar> \<le> 5033165 / 2 ^ 24 / 2 ^ 22"
    by (simp only: T_def)
qed

lemma round32_50: "round32 (50 * (11744051 / 2 ^ 24)) = 35"
  unfolding round32_def
  by (subst round_to_value [where t = 5 and m = 9175040]) (simp_all add: power_int_minus)

lemma round64_35: "round64 (35 * (3152519739159347 / 2 ^ 52)) = 49 / 2"
  unfolding round64_def
  by (subst round_to_value [where t = 4 and m = 6896136929411072]) (simp_all add: power_int_minus)

lemma round32_49_2: "round32 (49 / 2) = 49 / 2"
  unfolding round32_def
  by (subst round_to_value [where t = 4 and m = 12845056]) (simp_all add: power_int_minus)

lemma round32_clamp_product: "round32 (49 / 2 * (5033165 / 2 ^ 24)) = 3853517 / 2 ^ 19"
  unfolding round32_def
  by (subst round_to_value [where t = 2 and m = 15414068]) (simp_all add: power_int_minus)

lemma round32_clamp_quotient: "round32 (3853517 / 2 ^ 19 / (49 / 2)) = 5033165 / 2 ^ 24"
  unfolding round32_def
  by (subst round_to_value [where t = "- 2" and m = 10066330]) (simp_all add: power_int_minus)

section \<open>Properties of the blob loop\<close>


lemma unat_area_add:
  "unat (word_of_int (uint (w :: 16 word) + sint (a :: 32 word)) :: 16 word)
     = (unat w + unat a) mod 65536"
proof -
  have "uint a = sint a mod 2 ^ 32"
    by (simp add: uint_sint take_bit_eq_mod)
  then have "uint a mod 65536 = sint a mod 65536"
    by (simp add: mod_mod_cancel)
  then have eq: "(uint w + sint a) mod 65536 = (uint w + uint a) mod 65536"
    by (metis mod_add_right_eq)
  have "uint (word_of_int (uint w + sint a) :: 16 word) = (uint w + sint a) mod 2 ^ LENGTH(16)"
    by (rule uint_word_of_int)
  also have "\<dots> = (uint w + uint a) mod 65536"
    using eq by simp
  finally have "nat (uint (word_of_int (uint w + sint a) :: 16 word))
      = nat ((uint w + uint a) mod 65536)"
    by (rule arg_cong)
  also have "\<dots> = (unat w + unat a) mod 65536"
    by (simp add: nat_mod_distrib nat_add_distrib)
  finally show ?thesis
    by (simp only: nat_uint_eq)
qed

lemma unat_area_add_scast:
  "unat ((w :: 16 word) + scast (a :: 32 word)) = (unat w + unat a) mod 65536"
  using unat_area_add [of w a] by simp

lemma target_test:
  "(blob_red b = word_of_int (colors ! 1 ! 0) \<and> blob_green b = word_of_int (colors ! 1 ! 1) \<and>
    blob_blue b = word_of_int (colors ! 1 ! 2)) = is_target b"
  by (simp add: colors_def is_target_def)

lemma blob_body_globals:
  "snd (blob_body b (l, g)) =
     (if is_target b
      then g\<lparr>goal_blob_area := word_of_int (uint (goal_blob_area g) + sint (blob_area b))\<rparr>
      else g)"
  unfolding blob_body_def Let_def target_test by simp

lemma blob_body_area:
  "unat (goal_blob_area (snd (blob_body b lg))) =
     (unat (goal_blob_area (snd lg)) + (if is_target b then unat (blob_area b) else 0)) mod 65536"
proof -
  have "unat (goal_blob_area (snd lg)) < 65536"
    using unsigned_less [of "goal_blob_area (snd lg)", where 'a = nat] by simp
  then show ?thesis
    by (cases lg) (simp add: blob_body_globals unat_area_add_scast)
qed

lemma blob_body_keeps:
  "snd (blob_body b lg) = (snd lg)\<lparr>goal_blob_area := goal_blob_area (snd (blob_body b lg))\<rparr>"
  by (cases lg) (simp add: blob_body_globals)

lemma area_from_step:
  assumes "i < unat (blob_count m)" "i < length (blobs m)"
  shows "area_from m i =
     (if is_target (blobs m ! i) then unat (blob_area (blobs m ! i)) else 0) + area_from m (Suc i)"
proof -
  let ?xs = "take (unat (blob_count m)) (blobs m)"
  have "i < length ?xs" using assms by simp
  then have "drop i ?xs = ?xs ! i # drop (Suc i) ?xs"
    by (rule Cons_nth_drop_Suc [symmetric])
  moreover have "?xs ! i = blobs m ! i" using assms by simp
  ultimately show ?thesis by (simp add: area_from_def)
qed

lemma area_from_end: "unat (blob_count m) \<le> i \<Longrightarrow> area_from m i = 0"
  by (simp add: area_from_def)

lemma blob_loop_in_bounds:
  assumes "unat (blob_count m) \<le> length (blobs m)"
  shows "\<exists>l' a. blob_loop m i lg = Inr (l', (snd lg)\<lparr>goal_blob_area := a\<rparr>) \<and>
           unat a = (unat (goal_blob_area (snd lg)) + area_from m i) mod 65536"
  using assms
proof (induction m i lg rule: blob_loop.induct)
  case (1 blobsIn i lg)
  show ?case
  proof (cases "i < unat (blob_count blobsIn)")
    case True
    then have len: "i < length (blobs blobsIn)" using "1.prems" by simp
    let ?b = "blobs blobsIn ! i"
    have rd: "read_at (blobs blobsIn) i = Some ?b"
      using len by (simp add: read_at_def)
    obtain l' a where
      run: "blob_loop blobsIn (i + 1) (blob_body ?b lg)
              = Inr (l', (snd (blob_body ?b lg))\<lparr>goal_blob_area := a\<rparr>)" and
      val: "unat a = (unat (goal_blob_area (snd (blob_body ?b lg))) + area_from blobsIn (i + 1))
              mod 65536"
      using "1.IH" [OF True rd "1.prems"] by blast
    obtain a0 where keep: "snd (blob_body ?b lg) = (snd lg)\<lparr>goal_blob_area := a0\<rparr>"
      using blob_body_keeps [of ?b lg] by blast
    have "blob_loop blobsIn i lg = Inr (l', (snd lg)\<lparr>goal_blob_area := a\<rparr>)"
      using True rd run keep by (subst blob_loop.simps) simp
    moreover have "unat a = (unat (goal_blob_area (snd lg)) + area_from blobsIn i) mod 65536"
      using val by (simp add: blob_body_area area_from_step [OF True len] mod_add_left_eq add.assoc)
    ultimately show ?thesis by blast
  next
    case False
    then have "blob_loop blobsIn i lg = Inr lg"
      by (subst blob_loop.simps) simp
    moreover have "area_from blobsIn i = 0"
      using False by (simp add: area_from_end)
    moreover have "unat (goal_blob_area (snd lg)) < 65536"
      using unsigned_less [of "goal_blob_area (snd lg)", where 'a = nat] by simp
    ultimately show ?thesis
      by (cases lg) (auto intro!: exI [of _ "goal_blob_area (snd lg)"])
  qed
qed

lemma blob_loop_out_of_bounds:
  assumes "length (blobs m) < unat (blob_count m)" "i \<le> length (blobs m)"
  shows "blob_loop m i lg = Inl OutOfBounds"
  using assms
proof (induction m i lg rule: blob_loop.induct)
  case (1 blobsIn i lg)
  have lt: "i < unat (blob_count blobsIn)" using "1.prems" by simp
  show ?case
  proof (cases "i < length (blobs blobsIn)")
    case True
    then have rd: "read_at (blobs blobsIn) i = Some (blobs blobsIn ! i)"
      by (simp add: read_at_def)
    have "blob_loop blobsIn (i + 1) (blob_body (blobs blobsIn ! i) lg) = Inl OutOfBounds"
      using "1.IH" [OF lt rd "1.prems"(1)] True by simp
    then show ?thesis
      using lt rd by (subst blob_loop.simps) simp
  next
    case False
    then have "read_at (blobs blobsIn) i = None" by (simp add: read_at_def)
    then show ?thesis
      using lt by (subst blob_loop.simps) simp
  qed
qed

lemma area_from_0: "area_from m 0 = matched_area_sum m"
  by (simp add: area_from_def matched_area_sum_def matched_blobs_def)

lemma blobsCallBack_in_bounds:
  assumes "0 < blob_count m" "unat (blob_count m) \<le> length (blobs m)"
  shows "\<exists>x a. blobsCallBack m g =
           Inr (if 3000 < matched_area_sum m mod 65536
                then g\<lparr>goal_blob_area := a, goal_x := x, goal_found_flag := True\<rparr>
                else g\<lparr>goal_blob_area := a, goal_found_flag := False\<rparr>) \<and>
           unat a = matched_area_sum m mod 65536"
proof -
  let ?l0 = "\<lparr>num_goal_blobs = 0, goal_sum_x = 0, goal_sum_y = 0\<rparr>"
  let ?g0 = "g\<lparr>goal_blob_area := 0\<rparr>"
  obtain l' a where
    run: "blob_loop m 0 (?l0, ?g0) = Inr (l', (snd (?l0, ?g0))\<lparr>goal_blob_area := a\<rparr>)" and
    val: "unat a = (unat (goal_blob_area (snd (?l0, ?g0))) + area_from m 0) mod 65536"
    using blob_loop_in_bounds [OF assms(2), of 0 "(?l0, ?g0)"] by blast
  have val': "unat a = matched_area_sum m mod 65536"
    using val by (simp add: area_from_0)
  show ?thesis
  proof (cases "3000 < matched_area_sum m mod 65536")
    case True
    then have "blobsCallBack m g =
        Inr (g\<lparr>goal_blob_area := a,
               goal_x := round32 (round32 (goal_sum_x l' / real (unat a))
                          - round32 (image_width / 2)),
               goal_found_flag := True\<rparr>)"
      using assms(1) run val' by (cases "goal_found_flag g") (simp_all add: blobsCallBack_def Let_def)
    with True val' show ?thesis by auto
  next
    case False
    then have "blobsCallBack m g = Inr (g\<lparr>goal_blob_area := a, goal_found_flag := False\<rparr>)"
      using assms(1) run val' by (simp add: blobsCallBack_def)
    with False val' show ?thesis by auto
  qed
qed

lemma blobsCallBack_out_of_bounds:
  assumes "length (blobs m) < unat (blob_count m)"
  shows "blobsCallBack m g = Inl OutOfBounds"
proof -
  have "0 < blob_count m"
    using assms by (auto simp: word_greater_zero_iff)
  moreover have "blob_loop m 0
      (\<lparr>num_goal_blobs = 0, goal_sum_x = 0, goal_sum_y = 0\<rparr>, g\<lparr>goal_blob_area := 0\<rparr>)
      = Inl OutOfBounds"
    using assms by (intro blob_loop_out_of_bounds) simp_all
  ultimately show ?thesis
    by (simp add: blobsCallBack_def)
qed

lemma blobsCallBack_flags:
  assumes "blobsCallBack m g = Inr g'"
  shows "obstacle_found_flag g' = obstacle_found_flag g \<and> bumper_flag g' = bumper_flag g \<and>
         state g' = state g"
proof (cases "0 < blob_count m")
  case False
  then have "blob_count m = 0" by (simp add: word_greater_zero_iff)
  then show ?thesis using assms by (simp add: blobsCallBack_def)
next
  case True
  show ?thesis
  proof (cases "unat (blob_count m) \<le> length (blobs m)")
    case inb: True
    from blobsCallBack_in_bounds [OF True inb, of g] assms show ?thesis
      by (auto split: if_splits)
  next
    case False
    then show ?thesis
      using assms blobsCallBack_out_of_bounds [of m g] by simp
  qed
qed

lemma large_blob_run:
  "blobsCallBack
     \<lparr>blob_count = 1,
      blobs = [\<lparr>blob_red = 185, blob_green = 66, blob_blue = 36, blob_area = 66000,
                blob_x = 320, blob_y = 240\<rparr>]\<rparr> g
   = Inr (g\<lparr>goal_blob_area := 464, goal_found_flag := False\<rparr>)"
  by (simp add: blobsCallBack_def blob_loop.simps read_at_def blob_body_def colors_def)

lemma large_blob_sum:
  "matched_area_sum
     \<lparr>blob_count = 1,
      blobs = [\<lparr>blob_red = 185, blob_green = 66, blob_blue = 36, blob_area = 66000,
                blob_x = 320, blob_y = 240\<rparr>]\<rparr> = 66000"
  by (simp add: matched_area_sum_def matched_blobs_def is_target_def)

section \<open>Properties of the scan\<close>


lemma near_cols_step:
  "i < 640 \<Longrightarrow> near_cols cloud k i =
     (if is_near cloud (180 + k) i then [i] else []) @ near_cols cloud k (Suc i)"
  by (simp add: near_cols_def upt_conv_Cons)

lemma near_cols_end: "640 \<le> i \<Longrightarrow> near_cols cloud k i = []"
  by (simp add: near_cols_def)

lemma scan_row_in_bounds:
  assumes "640 * (180 + k) + 640 \<le> length cloud"
  shows "scan_row cloud k i acc = Inr (acc @ map real (near_cols cloud k i))"
  using assms
proof (induction cloud k i acc rule: scan_row.induct)
  case (1 points k i acc)
  show ?case
  proof (cases "i < 640")
    case True
    let ?pt = "points ! (640 * (180 + k) + i)"
    have rd: "read_at points (640 * (180 + k) + i) = Some ?pt"
      using True "1.prems" by (simp add: read_at_def)
    show ?thesis
      using True rd "1.IH" [OF True rd "1.prems"]
      by (subst scan_row.simps) (simp add: is_near_def min_z_def near_cols_step)
  next
    case False
    then show ?thesis
      by (subst scan_row.simps) (simp add: near_cols_end)
  qed
qed

lemma scan_row_out_of_bounds:
  assumes "length cloud < 640 * (180 + k) + 640" "i < 640"
  shows "scan_row cloud k i acc = Inl OutOfBounds"
  using assms
proof (induction cloud k i acc rule: scan_row.induct)
  case (1 points k i acc)
  show ?case
  proof (cases "640 * (180 + k) + i < length points")
    case True
    then have rd: "read_at points (640 * (180 + k) + i) = Some (points ! (640 * (180 + k) + i))"
      by (simp add: read_at_def)
    have "i + 1 < 640" using True "1.prems" by simp
    then show ?thesis
      using "1.prems" rd "1.IH" [OF "1.prems"(2) rd "1.prems"(1)]
      by (subst scan_row.simps) simp
  next
    case False
    then have "read_at points (640 * (180 + k) + i) = None"
      by (simp add: read_at_def)
    then show ?thesis
      using "1.prems" by (subst scan_row.simps) simp
  qed
qed

lemma near_rows_step: "k < 240 \<Longrightarrow> near_rows cloud k = near_cols cloud k 0 @ near_rows cloud (Suc k)"
  by (simp add: near_rows_def upt_conv_Cons)

lemma near_rows_end: "240 \<le> k \<Longrightarrow> near_rows cloud k = []"
  by (simp add: near_rows_def)

lemma scan_rows_in_bounds:
  assumes "268800 \<le> length cloud"
  shows "scan_rows cloud k acc = Inr (acc @ map real (near_rows cloud k))"
  using assms
proof (induction cloud k acc rule: scan_rows.induct)
  case (1 points k acc)
  show ?case
  proof (cases "k < 240")
    case True
    then have "640 * (180 + k) + 640 \<le> length points"
      using "1.prems" by simp
    then have row: "scan_row points k 0 acc = Inr (acc @ map real (near_cols points k 0))"
      by (rule scan_row_in_bounds)
    show ?thesis
      using True row "1.IH" [OF True row "1.prems"]
      by (subst scan_rows.simps) (simp add: near_rows_step)
  next
    case False
    then show ?thesis
      by (subst scan_rows.simps) (simp add: near_rows_end)
  qed
qed

lemma scan_rows_out_of_bounds:
  assumes "length cloud < 268800" "k < 240"
  shows "scan_rows cloud k acc = Inl OutOfBounds"
  using assms
proof (induction cloud k acc rule: scan_rows.induct)
  case (1 points k acc)
  show ?case
  proof (cases "length points < 640 * (180 + k) + 640")
    case True
    then have "scan_row points k 0 acc = Inl OutOfBounds"
      by (rule scan_row_out_of_bounds) simp
    then show ?thesis
      using "1.prems" by (subst scan_rows.simps) simp
  next
    case False
    then have row: "scan_row points k 0 acc = Inr (acc @ map real (near_cols points k 0))"
      by (intro scan_row_in_bounds) simp
    have "k + 1 < 240" using False "1.prems" by simp
    then show ?thesis
      using "1.prems" row "1.IH" [OF "1.prems"(2) row "1.prems"(1)]
      by (subst scan_rows.simps) simp
  qed
qed

lemma length_filter_product:
  "length (filter (\<lambda>(r, c). P r c) (List.product xs ys))
     = sum_list (map (\<lambda>r. length (filter (P r) ys)) xs)"
  by (induction xs) (simp_all add: filter_map comp_def)

lemma length_near_rows: "length (near_rows cloud 0) = near_count cloud"
proof -
  have "[180..<420] = map (\<lambda>k. 180 + k) [0..<240]"
    using map_add_upt [of 180 240] by (simp add: add.commute)
  then have "near_count cloud
      = sum_list (map (\<lambda>k. length (filter (is_near cloud (180 + k)) [0..<640])) [0..<240])"
    by (simp add: near_count_def length_filter_product comp_def)
  then show ?thesis
    by (simp add: near_rows_def near_cols_def length_concat comp_def)
qed

lemma PointCloud_Callback_eq:
  "PointCloud_Callback cloud g =
     (if length cloud < 268800 then Inl OutOfBounds
      else Inr (if 10 < near_count cloud then g\<lparr>obstacle_found_flag := True\<rparr>
                else if \<not> bumper_flag g then g\<lparr>obstacle_found_flag := False\<rparr>
                else g))"
proof (cases "length cloud < 268800")
  case True
  then have "scan_rows cloud 0 [] = Inl OutOfBounds"
    by (rule scan_rows_out_of_bounds) simp
  with True show ?thesis by (simp add: PointCloud_Callback_def)
next
  case False
  then have "scan_rows cloud 0 [] = Inr ([] @ map real (near_rows cloud 0))"
    by (intro scan_rows_in_bounds) simp
  with False show ?thesis
    by (simp add: PointCloud_Callback_def length_near_rows)
qed

lemma length_filter_const: "length (filter (\<lambda>x. b) xs) = (if b then length xs else 0)"
  by (induction xs) simp_all

lemma near_count_replicate:
  assumes "268800 \<le> n"
  shows "near_count (replicate n p) = (if float_less (point_z p) 0.7 then 153600 else 0)"
proof -
  let ?roi = "List.product [180..<420] [0..<640]"
  have eq: "filter (\<lambda>(row, col). is_near (replicate n p) row col) ?roi
      = filter (\<lambda>x. float_less (point_z p) 0.7) ?roi"
  proof (rule filter_cong [OF refl])
    fix x assume "x \<in> set ?roi"
    then obtain r c where x: "x = (r, c)" "r < 420" "c < 640" by auto
    then have "640 * r + c < n" using assms by simp
    then show "(case x of (row, col) \<Rightarrow> is_near (replicate n p) row col)
        = float_less (point_z p) 0.7"
      using x by (simp add: is_near_def)
  qed
  have len: "length ?roi = 153600"
    by (simp only: length_product length_upt) simp
  show ?thesis
    by (simp only: near_count_def eq length_filter_const len)
qed

section \<open>An invariant of the reachable states\<close>

text \<open>
  The bumper flag is raised only together with the obstacle flag, and the scan clears
  the obstacle flag only when the bumper flag is down.
\<close>

lemma bumper_implies_obstacle:
  "reachable g \<Longrightarrow> bumper_flag g \<Longrightarrow> obstacle_found_flag g"
proof (induction rule: reachable.induct)
  case start
  then show ?case by (simp add: init_globals_def)
next
  case (blobs_msg g blobsIn g')
  then show ?case using blobsCallBack_flags by blast
next
  case (cloud_msg g cloud g')
  then show ?case
    by (auto simp: PointCloud_Callback_eq split: if_splits)
next
  case (bumper_msg g bumper_msg)
  then show ?case by (auto simp: Bumper_Callback_def split: if_splits)
next
  case (loop_pass g pub)
  then show ?case
    by (cases "state g = 2") (auto simp: tick_avoid tick_def split: if_splits)
qed

section \<open>The claims\<close>

text \<open>
  C1. The goal flag is not raised for every frame whose matched blobs have a total area
  above 3000: the area is summed in a \<^verbatim>\<open>uint16_t\<close>. One blob of the target colour and
  of area 66000, about a fifth of the frame, leaves 464 in \<^verbatim>\<open>goal_blob_area\<close>, and
  the callback clears the goal flag that was raised before.
\<close>

theorem large_target_not_found:
  "matched_area_sum
     \<lparr>blob_count = 1,
      blobs = [\<lparr>blob_red = 185, blob_green = 66, blob_blue = 36, blob_area = 66000,
                blob_x = 320, blob_y = 240\<rparr>]\<rparr> = 66000 \<and>
   blobsCallBack
     \<lparr>blob_count = 1,
      blobs = [\<lparr>blob_red = 185, blob_green = 66, blob_blue = 36, blob_area = 66000,
                blob_x = 320, blob_y = 240\<rparr>]\<rparr>
     (init_globals\<lparr>goal_found_flag := True\<rparr>)
   = Inr (init_globals\<lparr>goal_blob_area := 464, goal_found_flag := False\<rparr>)"
  by (simp add: large_blob_sum large_blob_run)

text \<open>
  C2. In every state the node can reach, a scan of a depth frame that holds the rows the
  scan reads returns, leaves the bumper flag as it was, and leaves the obstacle flag
  raised exactly when more than 10 points of rows 180 to 419 are nearer than 0.7 or the
  bumper flag is raised.
\<close>

theorem obstacle_flag_after_scan:
  assumes "reachable g" "268800 \<le> length cloud"
  shows "\<exists>g'. PointCloud_Callback cloud g = Inr g' \<and>
           bumper_flag g' = bumper_flag g \<and>
           obstacle_found_flag g' = (10 < near_count cloud \<or> bumper_flag g')"
  using assms bumper_implies_obstacle [OF assms(1)]
  by (auto simp: PointCloud_Callback_eq)

theorem obstacle_flag_after_scan_witness:
  "\<exists>g'. PointCloud_Callback
       (replicate 307200 \<lparr>point_x = NaN, point_y = NaN, point_z = NaN\<rparr>)
       (Bumper_Callback \<lparr>bumper = 1, bumper_state = 1\<rparr> init_globals) = Inr g' \<and>
     bumper_flag g' \<and> obstacle_found_flag g'"
proof -
  let ?cloud = "replicate 307200 \<lparr>point_x = NaN, point_y = NaN, point_z = NaN\<rparr>"
  let ?g = "Bumper_Callback \<lparr>bumper = 1, bumper_state = 1\<rparr> init_globals"
  have r: "reachable ?g"
    by (rule reachable.bumper_msg [OF reachable.start])
  have l: "268800 \<le> length ?cloud" by simp
  have b: "bumper_flag ?g" by (simp add: Bumper_Callback_def)
  from obstacle_flag_after_scan [OF r l] b show ?thesis by auto
qed

text \<open>
  C3. State 3 (Reached) is absorbing: from it, whatever perception values the later
  passes of the loop read, the state stays 3 and the publisher is left as it was, so no
  command is emitted.
\<close>

theorem reached_absorbing:
  "state g = 3 \<Longrightarrow> state (fst (ticks g ps pub)) = 3 \<and> snd (ticks g ps pub) = pub"
proof (induction ps arbitrary: g)
  case Nil
  then show ?case by simp
next
  case (Cons p ps)
  have "tick (p\<lparr>state := state g\<rparr>) pub = (p\<lparr>state := state g\<rparr>, pub)"
    using Cons.prems by (simp add: tick_reached)
  moreover have "state (p\<lparr>state := state g\<rparr>) = 3"
    using Cons.prems by simp
  ultimately show ?case
    using Cons.IH [of "p\<lparr>state := state g\<rparr>"] by simp
qed

theorem reached_absorbing_witness:
  "state (fst (ticks (init_globals\<lparr>state := 3\<rparr>)
      [init_globals\<lparr>obstacle_found_flag := True, bumper_flag := True\<rparr>,
       init_globals\<lparr>goal_found_flag := True, goal_blob_area := 40000\<rparr>] [])) = 3 \<and>
   snd (ticks (init_globals\<lparr>state := 3\<rparr>)
      [init_globals\<lparr>obstacle_found_flag := True, bumper_flag := True\<rparr>,
       init_globals\<lparr>goal_found_flag := True, goal_blob_area := 40000\<rparr>] []) = []"
  using reached_absorbing [of "init_globals\<lparr>state := 3\<rparr>"
      "[init_globals\<lparr>obstacle_found_flag := True, bumper_flag := True\<rparr>,
        init_globals\<lparr>goal_found_flag := True, goal_blob_area := 40000\<rparr>]" "[]"]
  by simp

text \<open>
  C4. In state 0 (Search) a raised obstacle flag sends the loop to state 2 (Avoid) on the
  next pass, whatever the goal flag is: the obstacle test comes first.
\<close>

theorem search_obstacle_priority:
  "state g = 0 \<Longrightarrow> obstacle_found_flag g \<Longrightarrow> next_state g = 2"
  by (simp add: next_state_def tick_def)

theorem search_obstacle_priority_witness:
  "next_state (init_globals\<lparr>obstacle_found_flag := True, goal_found_flag := True\<rparr>) = 2"
  using search_obstacle_priority
    [of "init_globals\<lparr>obstacle_found_flag := True, goal_found_flag := True\<rparr>"]
  by (simp add: init_globals_def)

text \<open>
  C5. In state 2 (Avoid) a stored goal area above 30720, a tenth of the 640 by 480 frame,
  sends the loop to state 3 (Reached), whatever the bumper and obstacle flags are: the
  area test is the first of the case.
\<close>

theorem avoid_to_reached:
  "state g = 2 \<Longrightarrow> 30720 < unat (goal_blob_area g) \<Longrightarrow> next_state g = 3"
  by (simp add: next_state_def tick_avoid)

theorem avoid_to_reached_witness:
  "next_state (init_globals\<lparr>state := 2, goal_blob_area := 30721, bumper_flag := True,
      obstacle_found_flag := True\<rparr>) = 3"
  using avoid_to_reached
    [of "init_globals\<lparr>state := 2, goal_blob_area := 30721, bumper_flag := True,
      obstacle_found_flag := True\<rparr>"]
  by simp

text \<open>
  C6. The claim that \<^verbatim>\<open>seek\<close> emits the linear velocity 0.105 and an angular velocity
  capped at 0.3 fails in the arithmetic of the code: for the goal offset -50 the command
  carries the \<^verbatim>\<open>double\<close> \<open>7046431 / 2 ^ 26\<close>, which is 0.10500000417232513..., and the
  \<^verbatim>\<open>float\<close> \<open>5033165 / 2 ^ 24\<close>, which is 0.300000011920928955078125 and above 0.3.
\<close>

theorem seek_values_rounded:
  "seek (init_globals\<lparr>goal_x := - 50\<rparr>) [] =
     [\<lparr>linear_x = 7046431 / 2 ^ 26, linear_y = 0, linear_z = 0, angular_x = 0, angular_y = 0,
       angular_z = 5033165 / 2 ^ 24\<rparr>] \<and>
   (7046431 / 2 ^ 26 :: real) \<noteq> 0.105 \<and> (0.3 :: real) < 5033165 / 2 ^ 24"
proof -
  let ?g = "init_globals\<lparr>goal_x := - 50\<rparr>"
  have "- goal_x ?g * angular_speed = 50 * (11744051 / 2 ^ 24)"
    by (simp add: angular_speed_value)
  then have a: "round32 (round64 (round32 (- goal_x ?g * angular_speed) * round64 0.7)) = 49 / 2"
    by (simp only: round32_50 round64_0_7 round64_35 round32_49_2)
  have big: "\<bar>49 / 2 :: real\<bar> > angular_speed_thresh"
    by (simp add: angular_speed_thresh_value)
  have "\<bar>49 / 2 :: real\<bar> = 49 / 2" by simp
  then have z: "round32 (round32 (49 / 2 * angular_speed_thresh) / \<bar>49 / 2\<bar>) = 5033165 / 2 ^ 24"
    by (simp only: angular_speed_thresh_value round32_clamp_product round32_clamp_quotient)
  have "seek ?g [] =
     [\<lparr>linear_x = 7046431 / 2 ^ 26, linear_y = 0, linear_z = 0, angular_x = 0, angular_y = 0,
       angular_z = 5033165 / 2 ^ 24\<rparr>]"
    unfolding seek_def Let_def a seek_linear_x publish_def
    using big z by simp
  then show ?thesis by simp
qed

text \<open>
  C6, as amended. For every goal offset that is a finite \<^verbatim>\<open>float\<close> (magnitude below
  \<open>2 ^ 128\<close>), \<^verbatim>\<open>seek\<close> emits one command. Its linear velocity is always the \<^verbatim>\<open>double\<close>
  \<open>7046431 / 2 ^ 26\<close>, within \<open>5 / 10 ^ 9\<close> of 0.105. With \<open>a\<close> the \<^verbatim>\<open>float\<close> value the
  code computes for \<open>- goal_x * angular_speed * 0.7\<close>, which differs from
  \<open>- goal_x * (0.7 * 0.7)\<close> by at most \<open>\<bar>goal_x\<bar> / 10 ^ 7 + 1 / 2 ^ 149\<close>, the angular
  velocity is \<open>a\<close> when its magnitude is at most the \<^verbatim>\<open>float\<close> threshold, and otherwise
  has the sign of \<open>a\<close> and a magnitude within one part in \<open>2 ^ 22\<close> of the threshold; the
  threshold is the \<^verbatim>\<open>float\<close> nearest to 0.3, within \<open>2 / 10 ^ 8\<close> of it.
\<close>

theorem seek_command_rounded:
  assumes "\<bar>goal_x g\<bar> < 2 ^ 128"
  shows "let a = round32 (round64 (round32 (- goal_x g * angular_speed) * round64 0.7)) in
     \<exists>z. seek g pub = pub @
           [\<lparr>linear_x = 7046431 / 2 ^ 26, linear_y = 0, linear_z = 0, angular_x = 0,
             angular_y = 0, angular_z = z\<rparr>] \<and>
         (if \<bar>a\<bar> \<le> angular_speed_thresh then z = a
          else sgn z = sgn a \<and>
               \<bar>\<bar>z\<bar> - angular_speed_thresh\<bar> \<le> angular_speed_thresh / 2 ^ 22) \<and>
         \<bar>a - (- goal_x g * (0.7 * 0.7))\<bar> \<le> \<bar>goal_x g\<bar> / 10 ^ 7 + 1 / 2 ^ 149 \<and>
         \<bar>angular_speed_thresh - 0.3\<bar> \<le> 2 / 10 ^ 8 \<and>
         \<bar>7046431 / 2 ^ 26 - 0.105 :: real\<bar> \<le> 5 / 10 ^ 9"
proof -
  define a where "a = round32 (round64 (round32 (- goal_x g * angular_speed) * round64 0.7))"
  define z where "z = (if \<bar>a\<bar> > angular_speed_thresh
      then round32 (round32 (a * angular_speed_thresh) / \<bar>a\<bar>) else a)"
  have raw: "\<bar>a - (- goal_x g * (0.7 * 0.7))\<bar> \<le> \<bar>goal_x g\<bar> / 10 ^ 7 + 1 / 2 ^ 149"
    and fin: "\<bar>a\<bar> < 2 ^ 128"
    unfolding a_def by (rule angular_raw [OF assms])+
  have run: "seek g pub = pub @
           [\<lparr>linear_x = 7046431 / 2 ^ 26, linear_y = 0, linear_z = 0, angular_x = 0,
             angular_y = 0, angular_z = z\<rparr>]"
    by (simp only: seek_def Let_def a_def [symmetric] z_def [symmetric] seek_linear_x publish_def)
  have clamp: "if \<bar>a\<bar> \<le> angular_speed_thresh then z = a
          else sgn z = sgn a \<and>
               \<bar>\<bar>z\<bar> - angular_speed_thresh\<bar> \<le> angular_speed_thresh / 2 ^ 22"
  proof (cases "\<bar>a\<bar> \<le> angular_speed_thresh")
    case True
    then show ?thesis by (simp add: z_def)
  next
    case False
    then have big: "5033165 / 2 ^ 24 < \<bar>a\<bar>"
      by (simp add: angular_speed_thresh_value)
    have "z = round32 (round32 (a * (5033165 / 2 ^ 24)) / \<bar>a\<bar>)"
      using False by (simp add: z_def angular_speed_thresh_value)
    with angular_clamp [OF big fin] False show ?thesis
      by (simp only: angular_speed_thresh_value) simp
  qed
  have c: "\<bar>angular_speed_thresh - 0.3\<bar> \<le> 2 / 10 ^ 8"
    "\<bar>7046431 / 2 ^ 26 - 0.105 :: real\<bar> \<le> 5 / 10 ^ 9"
    by (simp_all add: angular_speed_thresh_value)
  show ?thesis
    unfolding Let_def a_def [symmetric] using run clamp raw c by blast
qed

theorem seek_command_rounded_witness:
  "let a = round32 (round64 (round32 (- goal_x (init_globals\<lparr>goal_x := - 50\<rparr>) * angular_speed)
             * round64 0.7)) in
     \<exists>z. seek (init_globals\<lparr>goal_x := - 50\<rparr>) [] = [] @
           [\<lparr>linear_x = 7046431 / 2 ^ 26, linear_y = 0, linear_z = 0, angular_x = 0,
             angular_y = 0, angular_z = z\<rparr>] \<and>
         (if \<bar>a\<bar> \<le> angular_speed_thresh then z = a
          else sgn z = sgn a \<and>
               \<bar>\<bar>z\<bar> - angular_speed_thresh\<bar> \<le> angular_speed_thresh / 2 ^ 22) \<and>
         \<bar>a - (- goal_x (init_globals\<lparr>goal_x := - 50\<rparr>) * (0.7 * 0.7))\<bar>
           \<le> \<bar>goal_x (init_globals\<lparr>goal_x := - 50\<rparr>)\<bar> / 10 ^ 7 + 1 / 2 ^ 149 \<and>
         \<bar>angular_speed_thresh - 0.3\<bar> \<le> 2 / 10 ^ 8 \<and>
         \<bar>7046431 / 2 ^ 26 - 0.105 :: real\<bar> \<le> 5 / 10 ^ 9"
proof -
  have "\<bar>goal_x (init_globals\<lparr>goal_x := - 50\<rparr>)\<bar> < 2 ^ 128"
    by simp
  then show ?thesis
    by (rule seek_command_rounded)
qed

text \<open>
  C7. A blob frame whose \<^verbatim>\<open>blob_count\<close> is 0 leaves all the globals as they were, the
  goal flag, the goal offset and the goal area among them.
\<close>

theorem blobs_empty_noop: "blob_count blobsIn = 0 \<Longrightarrow> blobsCallBack blobsIn g = Inr g"
  by (simp add: blobsCallBack_def)

theorem blobs_empty_noop_witness:
  "blobsCallBack \<lparr>blob_count = 0, blobs = []\<rparr>
     (init_globals\<lparr>goal_found_flag := True, goal_x := 12, goal_blob_area := 5000\<rparr>)
   = Inr (init_globals\<lparr>goal_found_flag := True, goal_x := 12, goal_blob_area := 5000\<rparr>)"
  using blobs_empty_noop [of "\<lparr>blob_count = 0, blobs = []\<rparr>"
      "init_globals\<lparr>goal_found_flag := True, goal_x := 12, goal_blob_area := 5000\<rparr>"]
  by simp

text \<open>
  C8. The claim that a malformed frame is dropped without an out-of-bounds read fails:
  an empty depth buffer and a blob frame that declares one blob and holds none are both
  read out of bounds, and a depth buffer of 640 by 481 points, all of them near, is
  evaluated and raises the obstacle flag.
\<close>

theorem malformed_frames_not_dropped:
  "PointCloud_Callback [] init_globals = Inl OutOfBounds \<and>
   blobsCallBack \<lparr>blob_count = 1, blobs = []\<rparr> init_globals = Inl OutOfBounds \<and>
   PointCloud_Callback
     (replicate (640 * 481) \<lparr>point_x = Finite 0, point_y = Finite 0, point_z = Finite 0.5\<rparr>)
     init_globals = Inr (init_globals\<lparr>obstacle_found_flag := True\<rparr>)"
proof (intro conjI)
  show "PointCloud_Callback [] init_globals = Inl OutOfBounds"
    by (simp add: PointCloud_Callback_eq)
  show "blobsCallBack \<lparr>blob_count = 1, blobs = []\<rparr> init_globals = Inl OutOfBounds"
    by (rule blobsCallBack_out_of_bounds) simp
  show "PointCloud_Callback
     (replicate (640 * 481) \<lparr>point_x = Finite 0, point_y = Finite 0, point_z = Finite 0.5\<rparr>)
     init_globals = Inr (init_globals\<lparr>obstacle_found_flag := True\<rparr>)"
    by (simp add: PointCloud_Callback_eq near_count_replicate)
qed

text \<open>
  C8, as amended. The callbacks do not validate a frame. The scan reads the indices
  115200 to 268799 of the depth buffer: a buffer of at least 268800 points, of whatever
  size, is evaluated as a well-formed one (it is not dropped), and a shorter one is read
  out of bounds. The blob loop reads the first \<^verbatim>\<open>blob_count\<close> blobs: the frame is read
  out of bounds exactly when \<^verbatim>\<open>blob_count\<close> exceeds the number of blobs it holds.
\<close>

theorem frames_not_validated:
  "PointCloud_Callback cloud g =
     (if length cloud < 268800 then Inl OutOfBounds
      else Inr (if 10 < near_count cloud then g\<lparr>obstacle_found_flag := True\<rparr>
                else if bumper_flag g then g
                else g\<lparr>obstacle_found_flag := False\<rparr>)) \<and>
   (blobsCallBack m g = Inl OutOfBounds) = (length (blobs m) < unat (blob_count m))"
proof
  show "PointCloud_Callback cloud g =
     (if length cloud < 268800 then Inl OutOfBounds
      else Inr (if 10 < near_count cloud then g\<lparr>obstacle_found_flag := True\<rparr>
                else if bumper_flag g then g
                else g\<lparr>obstacle_found_flag := False\<rparr>))"
    by (simp add: PointCloud_Callback_eq)
  show "(blobsCallBack m g = Inl OutOfBounds) = (length (blobs m) < unat (blob_count m))"
  proof (cases "length (blobs m) < unat (blob_count m)")
    case True
    then show ?thesis by (simp add: blobsCallBack_out_of_bounds)
  next
    case False
    then have le: "unat (blob_count m) \<le> length (blobs m)" by simp
    have "\<exists>g'. blobsCallBack m g = Inr g'"
    proof (cases "0 < blob_count m")
      case True
      from blobsCallBack_in_bounds [OF True le, of g] show ?thesis by blast
    next
      case False
      then have "blob_count m = 0" by (simp add: word_greater_zero_iff)
      then show ?thesis by (simp add: blobsCallBack_def)
    qed
    with False show ?thesis by auto
  qed
qed

text \<open>
  C9. The claim that every pass emits at least one command fails: a pass in state 3
  emits none, and neither does the pass that leaves state 0 for state 2 when an obstacle
  is flagged.
\<close>

theorem no_command_in_reached:
  "emitted (init_globals\<lparr>state := 3\<rparr>) = [] \<and>
   emitted (init_globals\<lparr>obstacle_found_flag := True\<rparr>) = []"
  by (simp add: emitted_def tick_def init_globals_def)

text \<open>
  C9, as amended. The number of commands a pass emits: one when it rotates in Search
  (neither flag raised), seeks in Approach (goal flag raised, no obstacle) or rotates in
  Avoid (obstacle flagged without bumper contact, area at most 30720); 120000 in the
  bumper maneuver and 100000 in the advance maneuver of Avoid; and none on a pass that
  only changes the state, nor on any pass in Reached.
\<close>

theorem emitted_count:
  "length (emitted g) =
     (if state g = 0 then
        (if obstacle_found_flag g then 0 else if goal_found_flag g then 0 else 1)
      else if state g = 1 then
        (if obstacle_found_flag g then 0 else if goal_found_flag g then 1 else 0)
      else if state g = 2 then
        (if 30720 < unat (goal_blob_area g) then 0
         else if bumper_flag g then 120000
         else if obstacle_found_flag g then 1
         else 100000)
      else 0)"
proof (cases "state g = 2")
  case True
  then show ?thesis
    by (simp add: emitted_def tick_avoid)
next
  case False
  then show ?thesis
    by (simp add: emitted_def tick_def)
qed

text \<open>
  C10. The area of the matched blobs is summed in 16 bits: for a frame with
  \<^verbatim>\<open>blob_count > 0\<close> that holds the blobs it declares, the callback returns and the
  stored area is the sum of the matched areas modulo \<open>2 ^ 16\<close>. Some frame with a sum
  above 65535 leaves a stored area of at most 3000: the goal flag is then down, and a
  pass of the loop in state 2 (Avoid) does not go to state 3 (Reached).
\<close>

theorem goal_area_wraps:
  "(0 < blob_count m \<and> unat (blob_count m) \<le> length (blobs m) \<longrightarrow>
      (\<exists>g'. blobsCallBack m g = Inr g' \<and>
            unat (goal_blob_area g') = matched_area_sum m mod 2 ^ 16)) \<and>
   (\<exists>m' g'. 65535 < matched_area_sum m' \<and>
        blobsCallBack m' init_globals = Inr g' \<and>
        unat (goal_blob_area g') \<le> 3000 \<and> \<not> goal_found_flag g' \<and>
        next_state (g'\<lparr>state := 2\<rparr>) \<noteq> 3)"
proof (intro conjI impI)
  assume a: "0 < blob_count m \<and> unat (blob_count m) \<le> length (blobs m)"
  then obtain x a where
    "blobsCallBack m g =
       Inr (if 3000 < matched_area_sum m mod 65536
            then g\<lparr>goal_blob_area := a, goal_x := x, goal_found_flag := True\<rparr>
            else g\<lparr>goal_blob_area := a, goal_found_flag := False\<rparr>)"
    "unat a = matched_area_sum m mod 65536"
    using blobsCallBack_in_bounds [of m g] by blast
  then show "\<exists>g'. blobsCallBack m g = Inr g' \<and>
            unat (goal_blob_area g') = matched_area_sum m mod 2 ^ 16"
    by (cases "3000 < matched_area_sum m mod 65536") simp_all
next
  let ?m = "\<lparr>blob_count = 1,
      blobs = [\<lparr>blob_red = 185, blob_green = 66, blob_blue = 36, blob_area = 66000,
                blob_x = 320, blob_y = 240\<rparr>]\<rparr>"
  let ?g = "init_globals\<lparr>goal_blob_area := 464, goal_found_flag := False\<rparr>"
  have "65535 < matched_area_sum ?m"
    by (simp add: large_blob_sum)
  moreover have "blobsCallBack ?m init_globals = Inr ?g"
    by (simp only: large_blob_run)
  moreover have "unat (goal_blob_area ?g) \<le> 3000" by simp
  moreover have "\<not> goal_found_flag ?g" by simp
  moreover have "next_state (?g\<lparr>state := 2\<rparr>) \<noteq> 3"
    by (simp add: next_state_def tick_avoid)
  ultimately show "\<exists>m' g'. 65535 < matched_area_sum m' \<and>
        blobsCallBack m' init_globals = Inr g' \<and>
        unat (goal_blob_area g') \<le> 3000 \<and> \<not> goal_found_flag g' \<and>
        next_state (g'\<lparr>state := 2\<rparr>) \<noteq> 3"
    by blast
qed

theorem goal_area_wraps_witness:
  "\<exists>g'. blobsCallBack
       \<lparr>blob_count = 2,
        blobs = [\<lparr>blob_red = 185, blob_green = 66, blob_blue = 36, blob_area = 40000,
                  blob_x = 300, blob_y = 240\<rparr>,
                 \<lparr>blob_red = 185, blob_green = 66, blob_blue = 36, blob_area = 30000,
                  blob_x = 340, blob_y = 240\<rparr>]\<rparr> init_globals = Inr g' \<and>
      unat (goal_blob_area g') = 4464"
proof -
  let ?m = "\<lparr>blob_count = 2,
        blobs = [\<lparr>blob_red = 185, blob_green = 66, blob_blue = 36, blob_area = 40000,
                  blob_x = 300, blob_y = 240\<rparr>,
                 \<lparr>blob_red = 185, blob_green = 66, blob_blue = 36, blob_area = 30000,
                  blob_x = 340, blob_y = 240\<rparr>]\<rparr>"
  have pre: "0 < blob_count ?m \<and> unat (blob_count ?m) \<le> length (blobs ?m)"
    by simp
  have sum: "matched_area_sum ?m mod 2 ^ 16 = 4464"
    by (simp add: matched_area_sum_def matched_blobs_def is_target_def)
  from goal_area_wraps [of ?m init_globals, THEN conjunct1, THEN mp, OF pre]
  show ?thesis by (simp only: sum)
qed

end
